theory Spec2Isabelle
  imports Main "HOL-Library.AList" "HOL-Library.Multiset"
begin

section \<open>The TLD search plug-in (modules/sfp_searchtld.py)\<close>

text \<open>
  The plug-in derives a keyword from the target domain, reads the list of all
  top-level domains, builds the candidates \<open>keyword.tld\<close> and
  \<open>keyword.subtld.tld\<close>, resolves them in batches of worker threads and
  reports those that resolve. The model below follows the methods of the class
  \<open>sfp_searchtld\<close> one by one. The calls into the SpiderFoot library and into
  the operating system are parameters of the model (\<open>sf_env\<close>); the
  logging calls \<open>sf.info\<close>, \<open>sf.debug\<close> and \<open>sf.error\<close> have no
  effect on the plug-in and are left out.
\<close>

subsection \<open>Python strings\<close>

definition startswith :: "string \<Rightarrow> string \<Rightarrow> bool" where
  "startswith s p = (take (length p) s = p)"

text \<open>
  \<open>start\<close> calls the methods \<open>lower\<close> and \<open>splitlines\<close> of Python's
  \<open>str\<close> on the text of the list. Both are taken from the environment
  (\<open>sf_env\<close> below), so that nothing proved about \<open>start\<close> depends on how
  a line is cut or a letter is lowered. The two functions that follow are what
  the methods do on a text whose code points are all below 256, a \<open>char\<close>
  standing for the code point of its number; the scenarios use them, on plain
  ASCII text.

  \<open>str.lower()\<close> below 256: the letters A to Z and the capital letters of
  the Latin-1 block (U+00C0 to U+00DE without the multiplication sign U+00D7)
  move up by 32; every other code point stays.
\<close>

definition lower_latin1_char :: "char \<Rightarrow> char" where
  "lower_latin1_char c =
     (let n = (of_char c :: nat)
      in if (65 \<le> n \<and> n \<le> 90) \<or> (192 \<le> n \<and> n \<le> 214) \<or> (216 \<le> n \<and> n \<le> 222)
         then char_of (n + 32) else c)"

definition lower_latin1 :: "string \<Rightarrow> string" where
  "lower_latin1 s = map lower_latin1_char s"

text \<open>
  \<open>str.splitlines()\<close> below 256: a line ends at a line feed, a vertical tab,
  a form feed, a carriage return (taken together with a line feed that follows
  it), a file, group or record separator, or a next-line character; the break
  is not part of the line, and a break at the very end opens no further line.
  The second argument of \<open>splitlines_from\<close> is the line read so far,
  reversed.
\<close>

definition line_break :: "char \<Rightarrow> bool" where
  "line_break c =
     (c = CHR 0x0A \<or> c = CHR 0x0B \<or> c = CHR 0x0C \<or> c = CHR 0x0D \<or>
      c = CHR 0x1C \<or> c = CHR 0x1D \<or> c = CHR 0x1E \<or> c = CHR 0x85)"

fun splitlines_from :: "string \<Rightarrow> string \<Rightarrow> string list" where
  "splitlines_from [] cur = (if cur = [] then [] else [rev cur])"
| "splitlines_from (c # cs) cur =
     (if c = CHR 0x0D then
        (case cs of
           [] \<Rightarrow> [rev cur]
         | d # ds \<Rightarrow>
             if d = CHR 0x0A then rev cur # splitlines_from ds []
             else rev cur # splitlines_from (d # ds) [])
      else if line_break c then rev cur # splitlines_from cs []
      else splitlines_from cs (c # cur))"

definition splitlines_latin1 :: "string \<Rightarrow> string list" where
  "splitlines_latin1 s = splitlines_from s []"

subsection \<open>Exceptions\<close>

text \<open>
  The classes of the exceptions that \<open>socket.gethostbyname_ex\<close> can raise in a
  worker thread, with their method resolution order. \<open>except C\<close> catches an
  exception whose class has \<open>C\<close> in that order.
\<close>

datatype exc_class =
    BaseException | SystemExit | KeyboardInterrupt | Exception
  | OSError | Gaierror | Herror | Timeout | ValueError | UnicodeError | TypeError

fun mro :: "exc_class \<Rightarrow> exc_class list" where
  "mro BaseException = [BaseException]"
| "mro SystemExit = [SystemExit, BaseException]"
| "mro KeyboardInterrupt = [KeyboardInterrupt, BaseException]"
| "mro Exception = [Exception, BaseException]"
| "mro OSError = [OSError, Exception, BaseException]"
| "mro Gaierror = [Gaierror, OSError, Exception, BaseException]"
| "mro Herror = [Herror, OSError, Exception, BaseException]"
| "mro Timeout = [Timeout, OSError, Exception, BaseException]"
| "mro ValueError = [ValueError, Exception, BaseException]"
| "mro UnicodeError = [UnicodeError, ValueError, Exception, BaseException]"
| "mro TypeError = [TypeError, Exception, BaseException]"

record py_exception =
  exc_type :: exc_class
  exc_args :: string

definition isinstance :: "py_exception \<Rightarrow> exc_class \<Rightarrow> bool" where
  "isinstance e c = (c \<in> set (mro (exc_type e)))"

subsection \<open>Options, events, the plug-in object and its environment\<close>

record opts =
  activeonly :: bool
  checkcommon :: bool
  commontlds :: "string list"
  tldlist :: string
  skipwildcards :: bool
  maxthreads :: int

definition default_opts :: opts where
  "default_opts =
     \<lparr> activeonly = True, checkcommon = True,
       commontlds = [''com'', ''info'', ''net'', ''org'', ''biz'', ''co'', ''edu'', ''gov'', ''mil''],
       tldlist = ''http://data.iana.org/TLD/tlds-alpha-by-domain.txt'',
       skipwildcards = True, maxthreads = 100 \<rparr>"

record SpiderFootEvent =
  eventType :: string
  data :: string
  module :: string

text \<open>
  The host entry that a successful forward lookup returns: the name, the
  aliases and the addresses.
\<close>

type_synonym hostent = "string \<times> string list \<times> string list"

text \<open>
  What the plug-in calls and does not define itself:
  \<^item> \<open>domainKeyword\<close>, \<open>fetchUrl\<close> (the \<open>content\<close> entry of the dictionary it
    returns, \<open>None\<close> for Python's \<open>None\<close>) and \<open>checkDnsWildcard\<close> of the
    SpiderFoot library;
  \<^item> \<open>gethostbyname_ex\<close> of the socket library, which returns a host entry or
    raises;
  \<^item> \<open>lower\<close> and \<open>splitlines\<close>, the methods of \<open>str\<close>;
  \<^item> \<open>checkForStop\<close>, which reads a flag that the scanner sets from outside:
    \<open>checkForStop env n\<close> is the answer to the call number \<open>n\<close> of the run
    (the plug-in counts its calls in \<open>nchecks\<close>);
  \<^item> \<open>sched\<close>, the thread scheduler: for a batch of worker threads started in
    list order, the choices that decide which of the threads still running
    stores its outcome next (see \<open>completion\<close>).
\<close>

record sf_env =
  domainKeyword :: "string \<Rightarrow> string"
  fetchUrl :: "string \<Rightarrow> string option"
  checkDnsWildcard :: "string \<Rightarrow> bool"
  gethostbyname_ex :: "string \<Rightarrow> py_exception + hostent"
  lower :: "string \<Rightarrow> string"
  splitlines :: "string \<Rightarrow> string list"
  checkForStop :: "nat \<Rightarrow> bool"
  sched :: "string list \<Rightarrow> nat list"

text \<open>
  The attributes of the plug-in object: \<open>baseDomain\<close>, \<open>results\<close> and
  \<open>tldResults\<close> (a dictionary, kept as an association list in insertion
  order: Python goes through the keys of a dictionary in the order in which
  they were first stored, and storing under a key that is there keeps its
  place, as \<open>AList.update\<close> does), and what the plug-in does to the outside: the events handed to
  \<open>notifyListeners\<close>, the batches of worker threads it started (one list of
  thread arguments for each call of \<open>tryTldWrapper\<close>) and the number of
  calls of \<open>checkForStop\<close> so far.
\<close>

record plugin =
  baseDomain :: string
  results :: "string list"
  tldResults :: "(string \<times> bool) list"
  notified :: "SpiderFootEvent list"
  spawned :: "string list list"
  nchecks :: nat

definition setup_plugin :: "string \<Rightarrow> plugin" where
  "setup_plugin target =
     \<lparr> baseDomain = target, results = [], tldResults = [],
       notified = [], spawned = [], nchecks = 0 \<rparr>"

subsection \<open>tryTld\<close>

definition tryTld :: "sf_env \<Rightarrow> string \<Rightarrow> plugin \<Rightarrow> py_exception + plugin" where
  "tryTld env target s =
     (case gethostbyname_ex env target of
        Inr addrs \<Rightarrow> Inr (s\<lparr>tldResults := AList.update target True (tldResults s)\<rparr>)
      | Inl e \<Rightarrow>
          if isinstance e BaseException
          then Inr (s\<lparr>tldResults := AList.update target False (tldResults s)\<rparr>)
          else Inl e)"

subsection \<open>sendEvent\<close>

definition similar_domain :: "string \<Rightarrow> SpiderFootEvent" where
  "similar_domain result =
     \<lparr> eventType = ''SIMILARDOMAIN'', data = result, module = ''sfp_searchtld'' \<rparr>"

definition notifyListeners :: "SpiderFootEvent \<Rightarrow> plugin \<Rightarrow> plugin" where
  "notifyListeners evt s = s\<lparr>notified := notified s @ [evt]\<rparr>"

definition sendEvent :: "sf_env \<Rightarrow> opts \<Rightarrow> string \<Rightarrow> plugin \<Rightarrow> plugin" where
  "sendEvent env os result s =
     (if result = baseDomain s then s
      else
        let s1 = s\<lparr>results := results s @ [result]\<rparr>
        in if activeonly os then
             (let stop = checkForStop env (nchecks s1);
                  s2 = s1\<lparr>nchecks := Suc (nchecks s1)\<rparr>
              in if stop then s2
                 else (case fetchUrl env (''http://'' @ result) of
                         Some content \<Rightarrow> notifyListeners (similar_domain result) s2
                       | None \<Rightarrow> s2))
           else notifyListeners (similar_domain result) s1)"

subsection \<open>tryTldWrapper\<close>

text \<open>
  The worker threads are started in list order; each one resolves its
  candidate and stores the outcome. The order in which they store is the
  scheduler's: every choice \<open>p\<close> picks the thread at position
  \<open>p mod n\<close> among the \<open>n\<close> threads still running; when the choices
  run out, the remaining threads finish in the order they were started.
\<close>

fun completion :: "nat list \<Rightarrow> 'a list \<Rightarrow> 'a list" where
  "completion ps [] = []"
| "completion [] (x # xs) = x # xs"
| "completion (p # ps) (x # xs) =
     (let i = p mod length (x # xs)
      in (x # xs) ! i # completion ps (take i (x # xs) @ drop (Suc i) (x # xs)))"

text \<open>
  A worker thread that ended with an exception would store nothing and leave
  the other threads alone.
\<close>

definition run_thread :: "sf_env \<Rightarrow> string \<Rightarrow> plugin \<Rightarrow> plugin" where
  "run_thread env tld s = (case tryTld env tld s of Inr s' \<Rightarrow> s' | Inl e \<Rightarrow> s)"

definition run_threads :: "sf_env \<Rightarrow> string list \<Rightarrow> plugin \<Rightarrow> plugin" where
  "run_threads env tldList s = fold (run_thread env) (completion (sched env tldList) tldList) s"

text \<open>
  \<open>tryTldWrapper\<close> waits until no worker thread is alive, so all outcomes
  are stored when its last loop begins. The last loop goes through the keys of
  the dictionary and looks each one up.
\<close>

definition report :: "sf_env \<Rightarrow> opts \<Rightarrow> string \<Rightarrow> plugin \<Rightarrow> plugin" where
  "report env os res s =
     (if map_of (tldResults s) res = Some True then sendEvent env os res s else s)"

definition tryTldWrapper :: "sf_env \<Rightarrow> opts \<Rightarrow> string list \<Rightarrow> plugin \<Rightarrow> plugin" where
  "tryTldWrapper env os tldList s =
     (let s1 = s\<lparr>tldResults := [], spawned := spawned s @ [tldList]\<rparr>;
          s2 = run_threads env tldList s1
      in fold (report env os) (map fst (tldResults s2)) s2)"

subsection \<open>start\<close>

text \<open>
  The two places of \<open>start\<close> that put a candidate into \<open>targetList\<close> have the
  same shape: append while the list is not longer than \<open>maxthreads\<close>,
  otherwise resolve the list and begin an empty one.
\<close>

definition add_target ::
  "sf_env \<Rightarrow> opts \<Rightarrow> string \<Rightarrow> string list \<Rightarrow> plugin \<Rightarrow> string list \<times> plugin" where
  "add_target env os cand targetList s =
     (if int (length targetList) \<le> maxthreads os then (targetList @ [cand], s)
      else ([], tryTldWrapper env os targetList s))"

text \<open>
  A loop either runs to its end, with the current \<open>targetList\<close>, or
  \<open>start\<close> returns from inside it.
\<close>

datatype flow = Next "string list" plugin | Returned plugin

fun sub_loop ::
  "sf_env \<Rightarrow> opts \<Rightarrow> string \<Rightarrow> string \<Rightarrow> string list \<Rightarrow> string list \<Rightarrow> plugin \<Rightarrow> flow" where
  "sub_loop env os keyword tld [] targetList s = Next targetList s"
| "sub_loop env os keyword tld (subtld # rest) targetList s =
     (let subDomain = keyword @ ''.'' @ subtld @ ''.'' @ tld;
          stop = checkForStop env (nchecks s);
          s1 = s\<lparr>nchecks := Suc (nchecks s)\<rparr>
      in if stop then Returned s1
         else if skipwildcards os \<and> checkDnsWildcard env (subtld @ ''.'' @ tld)
         then sub_loop env os keyword tld rest targetList s1
         else (case add_target env os subDomain targetList s1 of
                 (targetList', s2) \<Rightarrow> sub_loop env os keyword tld rest targetList' s2))"

fun tld_loop ::
  "sf_env \<Rightarrow> opts \<Rightarrow> string \<Rightarrow> string list \<Rightarrow> string list \<Rightarrow> plugin \<Rightarrow> flow" where
  "tld_loop env os keyword [] targetList s = Next targetList s"
| "tld_loop env os keyword (tld # rest) targetList s =
     (if startswith tld ''#'' then tld_loop env os keyword rest targetList s
      else if skipwildcards os \<and> checkDnsWildcard env tld
      then tld_loop env os keyword rest targetList s
      else
        let tryDomain = keyword @ ''.'' @ tld;
            stop = checkForStop env (nchecks s);
            s1 = s\<lparr>nchecks := Suc (nchecks s)\<rparr>
        in if stop then Returned s1
           else (case add_target env os tryDomain targetList s1 of
                   (targetList', s2) \<Rightarrow>
                     (case (if checkcommon os
                            then sub_loop env os keyword tld (commontlds os) targetList' s2
                            else Next targetList' s2) of
                        Returned s3 \<Rightarrow> Returned s3
                      | Next targetList'' s3 \<Rightarrow> tld_loop env os keyword rest targetList'' s3)))"

definition leftover :: "sf_env \<Rightarrow> opts \<Rightarrow> flow \<Rightarrow> plugin" where
  "leftover env os f =
     (case f of
        Returned s \<Rightarrow> s
      | Next targetList s \<Rightarrow>
          if length targetList > 0 then tryTldWrapper env os targetList s else s)"

definition start :: "sf_env \<Rightarrow> opts \<Rightarrow> plugin \<Rightarrow> plugin" where
  "start env os s =
     (let keyword = domainKeyword env (baseDomain s)
      in case fetchUrl env (tldlist os) of
           None \<Rightarrow> s
         | Some content \<Rightarrow>
             leftover env os
               (tld_loop env os keyword (splitlines env (lower env content)) [] s))"

subsection \<open>Reading a batch\<close>

text \<open>
  A forward lookup succeeds when \<open>gethostbyname_ex\<close> returns a host entry.
\<close>

definition resolves :: "sf_env \<Rightarrow> string \<Rightarrow> bool" where
  "resolves env target = (case gethostbyname_ex env target of Inr addrs \<Rightarrow> True | Inl e \<Rightarrow> False)"

text \<open>
  The dictionary \<open>tldResults\<close> as the worker threads of a batch leave it,
  starting from the empty dictionary that \<open>tryTldWrapper\<close> creates.
\<close>

definition outcomes :: "sf_env \<Rightarrow> string list \<Rightarrow> (string \<times> bool) list" where
  "outcomes env b = fold (\<lambda>k. AList.update k (resolves env k)) (completion (sched env b) b) []"

text \<open>The plug-in object that a loop of \<open>start\<close> leaves behind.\<close>

fun flow_state :: "flow \<Rightarrow> plugin" where
  "flow_state (Next targetList s) = s"
| "flow_state (Returned s) = s"

text \<open>
  The target domain is the \<open>baseDomain\<close> of the plug-in and is neither in
  \<open>results\<close> nor the data of an event sent so far.
\<close>

definition target_unreported :: "string \<Rightarrow> plugin \<Rightarrow> bool" where
  "target_unreported t s =
     (baseDomain s = t \<and> t \<notin> set (results s) \<and> t \<notin> set (map data (notified s)))"

text \<open>
  A line of the list for which \<open>start\<close> builds no candidate: a comment, or,
  with \<open>skipwildcards\<close>, a wildcard zone.
\<close>

definition skipped_line :: "sf_env \<Rightarrow> opts \<Rightarrow> string \<Rightarrow> bool" where
  "skipped_line env os tld =
     (startswith tld ''#'' \<or> (skipwildcards os \<and> checkDnsWildcard env tld))"

text \<open>
  Every candidate that is waiting in \<open>targetList\<close> or was handed to a batch
  of worker threads satisfies \<open>P\<close>.
\<close>

definition all_considered :: "(string \<Rightarrow> bool) \<Rightarrow> string list \<Rightarrow> plugin \<Rightarrow> bool" where
  "all_considered P targetList s = (list_all P targetList \<and> list_all (list_all P) (spawned s))"

fun flow_all :: "(string \<Rightarrow> bool) \<Rightarrow> flow \<Rightarrow> bool" where
  "flow_all P (Next targetList s) = all_considered P targetList s"
| "flow_all P (Returned s) = all_considered P [] s"



text \<open>
  The candidates that the loops of \<open>start\<close> build, in the order in which
  they build them: nothing for a skipped line; for any other line
  \<open>keyword.tld\<close> and then, with \<open>checkcommon\<close>, \<open>keyword.subtld.tld\<close> for
  every common sub-domain whose zone is not a skipped wildcard zone.
\<close>

definition sub_candidates :: "sf_env \<Rightarrow> opts \<Rightarrow> string \<Rightarrow> string \<Rightarrow> string list \<Rightarrow> string list" where
  "sub_candidates env os keyword tld subtlds =
     map (\<lambda>subtld. keyword @ ''.'' @ subtld @ ''.'' @ tld)
       (filter (\<lambda>subtld. \<not> (skipwildcards os \<and> checkDnsWildcard env (subtld @ ''.'' @ tld))) subtlds)"

definition line_candidates :: "sf_env \<Rightarrow> opts \<Rightarrow> string \<Rightarrow> string \<Rightarrow> string list" where
  "line_candidates env os keyword tld =
     (if skipped_line env os tld then []
      else (keyword @ ''.'' @ tld) #
           (if checkcommon os then sub_candidates env os keyword tld (commontlds os) else []))"

definition candidates :: "sf_env \<Rightarrow> opts \<Rightarrow> string \<Rightarrow> string list \<Rightarrow> string list" where
  "candidates env os keyword lines = concat (map (line_candidates env os keyword) lines)"

text \<open>
  What the two appending places and the leftover test of \<open>start\<close> make of a
  sequence of candidates: the batches handed to \<open>tryTldWrapper\<close>, starting
  with \<open>targetList\<close> as it is.
\<close>

fun batches :: "int \<Rightarrow> string list \<Rightarrow> string list \<Rightarrow> string list list" where
  "batches n targetList [] = (if length targetList > 0 then [targetList] else [])"
| "batches n targetList (c # cs) =
     (if int (length targetList) \<le> n then batches n (targetList @ [c]) cs
      else targetList # batches n [] cs)"

subsection \<open>A small scenario\<close>

text \<open>
  The keyword is \<open>acme\<close>. The list of top-level domains has a comment line and
  the lines COM, XYZ, BIZ and NET; \<open>biz\<close> is a wildcard zone. Four names
  resolve, every other lookup raises \<open>gaierror\<close>. The page of \<open>acme.xyz\<close>
  has a body, the page of \<open>acme.net\<close> has an empty body, no other page can be
  fetched. Nobody stops the scan, and the worker threads finish in the order
  they were started.
\<close>

definition gaierror :: py_exception where
  "gaierror = \<lparr> exc_type = Gaierror, exc_args = ''Name or service not known'' \<rparr>"

definition demo_env :: sf_env where
  "demo_env =
     \<lparr> domainKeyword = (\<lambda>d. ''acme''),
       fetchUrl = (\<lambda>u. if u = ''http://tlds.example/list''
                        then Some (''# Version 1'' @ [CHR 0x0A] @ ''COM'' @ [CHR 0x0A] @ ''XYZ''
                                   @ [CHR 0x0A] @ ''BIZ'' @ [CHR 0x0A] @ ''NET'' @ [CHR 0x0A])
                        else if u = ''http://acme.xyz'' then Some ''<html>acme</html>''
                        else if u = ''http://acme.net'' then Some []
                        else None),
       checkDnsWildcard = (\<lambda>z. z = ''biz''),
       gethostbyname_ex = (\<lambda>h. if h \<in> {''acme.com'', ''acme.xyz'', ''acme.net'', ''acme.org.xyz''}
                                then Inr (h, [], [''192.0.2.1'']) else Inl gaierror),
       lower = lower_latin1,
       splitlines = splitlines_latin1,
       checkForStop = (\<lambda>n. False),
       sched = (\<lambda>b. []) \<rparr>"

definition demo_opts :: opts where
  "demo_opts = default_opts \<lparr> tldlist := ''http://tlds.example/list'', commontlds := [''org''], maxthreads := 1 \<rparr>"

text \<open>
  The options of the scenario: the default number of threads with one common
  sub-domain, and one thread with no common sub-domains.
\<close>

definition wide_opts :: opts where
  "wide_opts = default_opts \<lparr> tldlist := ''http://tlds.example/list'', commontlds := [''org''] \<rparr>"

definition flush_opts :: opts where
  "flush_opts = demo_opts \<lparr> checkcommon := False \<rparr>"





text \<open>
  A second wildcard zone below a top-level domain, and two common sub-domains.
\<close>

definition zone_env :: sf_env where
  "zone_env = demo_env \<lparr> checkDnsWildcard := (\<lambda>z. z = ''biz'' \<or> z = ''co.xyz'') \<rparr>"

definition two_opts :: opts where
  "two_opts = wide_opts \<lparr> commontlds := [''org'', ''co''] \<rparr>"



section \<open>Properties\<close>

subsection \<open>Worker threads and the outcome dictionary\<close>

lemma isinstance_BaseException: "isinstance e BaseException"
  by (cases "exc_type e") (simp_all add: isinstance_def)

lemma tryTld_Inr:
  "tryTld env target s = Inr (s\<lparr>tldResults := AList.update target (resolves env target) (tldResults s)\<rparr>)"
  by (simp add: tryTld_def resolves_def isinstance_BaseException split: sum.split)

lemma run_thread_eq:
  "run_thread env target s = s\<lparr>tldResults := AList.update target (resolves env target) (tldResults s)\<rparr>"
  by (simp add: run_thread_def tryTld_Inr)

lemma fold_run_thread:
  "fold (run_thread env) xs s =
     s\<lparr>tldResults := fold (\<lambda>k. AList.update k (resolves env k)) xs (tldResults s)\<rparr>"
  by (induction xs arbitrary: s) (simp_all add: run_thread_eq)

lemma map_of_fold_update:
  "map_of (fold (\<lambda>k. AList.update k (f k)) xs al) c =
     (if c \<in> set xs then Some (f c) else map_of al c)"
  by (induction xs arbitrary: al) (auto simp: AList.update_conv')

lemma keys_fold_update:
  "fst ` set (fold (\<lambda>k. AList.update k (f k)) xs al) = set xs \<union> fst ` set al"
  by (induction xs arbitrary: al) (auto simp: AList.dom_update)

lemma distinct_fold_update:
  "distinct (map fst al) \<Longrightarrow> distinct (map fst (fold (\<lambda>k. AList.update k (f k)) xs al))"
  by (induction xs arbitrary: al) (simp_all add: AList.distinct_update)

lemma nth_take_drop_mset:
  "i < length xs \<Longrightarrow> add_mset (xs ! i) (mset (take i xs @ drop (Suc i) xs)) = mset xs"
proof -
  assume "i < length xs"
  then have "xs = take i xs @ xs ! i # drop (Suc i) xs"
    by (rule id_take_nth_drop)
  then have "mset xs = mset (take i xs @ xs ! i # drop (Suc i) xs)"
    by simp
  then show ?thesis by simp
qed

lemma mset_completion: "mset (completion ps xs) = mset xs"
proof (induction ps xs rule: completion.induct)
  case (3 p ps x xs)
  define ys where "ys = x # xs"
  define i where "i = p mod length ys"
  have lt: "i < length ys" by (simp add: i_def ys_def)
  have ih: "mset (completion ps (take i ys @ drop (Suc i) ys)) = mset (take i ys @ drop (Suc i) ys)"
    using "3.IH" [OF refl] by (simp add: i_def ys_def)
  have "completion (p # ps) ys = ys ! i # completion ps (take i ys @ drop (Suc i) ys)"
    by (simp add: i_def ys_def Let_def)
  then have "mset (completion (p # ps) ys) = add_mset (ys ! i) (mset (take i ys @ drop (Suc i) ys))"
    using ih by simp
  also have "\<dots> = mset ys" by (rule nth_take_drop_mset [OF lt])
  finally show ?case by (simp add: ys_def)
qed simp_all

lemma set_completion: "set (completion ps xs) = set xs"
  using mset_completion [of ps xs] by (metis set_mset_mset)

subsection \<open>What sendEvent and tryTldWrapper change\<close>

lemma sendEvent_baseDomain [simp]: "baseDomain (sendEvent env os r s) = baseDomain s"
  by (simp add: sendEvent_def notifyListeners_def Let_def split: option.split)

lemma sendEvent_tldResults [simp]: "tldResults (sendEvent env os r s) = tldResults s"
  by (simp add: sendEvent_def notifyListeners_def Let_def split: option.split)

lemma sendEvent_spawned [simp]: "spawned (sendEvent env os r s) = spawned s"
  by (simp add: sendEvent_def notifyListeners_def Let_def split: option.split)

lemma sendEvent_results:
  "results (sendEvent env os r s) = (if r = baseDomain s then results s else results s @ [r])"
  by (simp add: sendEvent_def notifyListeners_def Let_def split: option.split)

lemma sendEvent_notified_cases:
  "notified (sendEvent env os r s) = notified s \<or>
   (r \<noteq> baseDomain s \<and> notified (sendEvent env os r s) = notified s @ [similar_domain r])"
  by (simp add: sendEvent_def notifyListeners_def Let_def split: option.split)

lemma report_baseDomain [simp]: "baseDomain (report env os r s) = baseDomain s"
  by (simp add: report_def)

lemma report_tldResults [simp]: "tldResults (report env os r s) = tldResults s"
  by (simp add: report_def)

lemma report_spawned [simp]: "spawned (report env os r s) = spawned s"
  by (simp add: report_def)

lemma fold_report_baseDomain [simp]: "baseDomain (fold (report env os) ks s) = baseDomain s"
  by (induction ks arbitrary: s) simp_all

lemma fold_report_tldResults [simp]: "tldResults (fold (report env os) ks s) = tldResults s"
  by (induction ks arbitrary: s) simp_all

lemma fold_report_spawned [simp]: "spawned (fold (report env os) ks s) = spawned s"
  by (induction ks arbitrary: s) simp_all

lemma fold_report_results:
  "results (fold (report env os) ks s) =
     results s @ [k \<leftarrow> ks. map_of (tldResults s) k = Some True \<and> k \<noteq> baseDomain s]"
  by (induction ks arbitrary: s) (simp_all add: report_def sendEvent_results)

lemma run_threads_eq:
  "run_threads env b s =
     s\<lparr>tldResults := fold (\<lambda>k. AList.update k (resolves env k))
                          (completion (sched env b) b) (tldResults s)\<rparr>"
  by (simp add: run_threads_def fold_run_thread)

lemma map_of_outcomes:
  "map_of (outcomes env b) c = (if c \<in> set b then Some (resolves env c) else None)"
  by (simp add: outcomes_def map_of_fold_update set_completion)

lemma keys_outcomes: "set (map fst (outcomes env b)) = set b"
  by (simp add: outcomes_def keys_fold_update set_completion)

lemma distinct_outcomes: "distinct (map fst (outcomes env b))"
  by (simp add: outcomes_def distinct_fold_update)

lemma tryTldWrapper_eq:
  "tryTldWrapper env os b s =
     fold (report env os) (map fst (outcomes env b))
       (s\<lparr>spawned := spawned s @ [b], tldResults := outcomes env b\<rparr>)"
  by (simp add: tryTldWrapper_def run_threads_eq outcomes_def Let_def)

lemma tryTldWrapper_baseDomain [simp]: "baseDomain (tryTldWrapper env os b s) = baseDomain s"
  by (simp add: tryTldWrapper_eq)

lemma tryTldWrapper_spawned [simp]: "spawned (tryTldWrapper env os b s) = spawned s @ [b]"
  by (simp add: tryTldWrapper_eq)

lemma tryTldWrapper_tldResults: "tldResults (tryTldWrapper env os b s) = outcomes env b"
  by (simp add: tryTldWrapper_eq)

lemma tryTldWrapper_results:
  "results (tryTldWrapper env os b s) =
     results s @ [k \<leftarrow> map fst (outcomes env b). resolves env k \<and> k \<noteq> baseDomain s]"
proof -
  have "[k \<leftarrow> map fst (outcomes env b). map_of (outcomes env b) k = Some True \<and> k \<noteq> baseDomain s]
      = [k \<leftarrow> map fst (outcomes env b). resolves env k \<and> k \<noteq> baseDomain s]"
    by (rule filter_cong [OF refl]) (use keys_outcomes [of env b] in \<open>auto simp: map_of_outcomes\<close>)
  then show ?thesis
    by (simp add: tryTldWrapper_eq fold_report_results)
qed

subsection \<open>The target domain is never reported\<close>

lemma sendEvent_unreported: "target_unreported t s \<Longrightarrow> target_unreported t (sendEvent env os r s)"
  by (auto simp: target_unreported_def sendEvent_def notifyListeners_def similar_domain_def Let_def
           split: option.split)

lemma report_unreported: "target_unreported t s \<Longrightarrow> target_unreported t (report env os r s)"
  by (simp add: report_def sendEvent_unreported)

lemma fold_report_unreported:
  "target_unreported t s \<Longrightarrow> target_unreported t (fold (report env os) ks s)"
  by (induction ks arbitrary: s) (simp_all add: report_unreported)

lemma tryTldWrapper_unreported:
  "target_unreported t s \<Longrightarrow> target_unreported t (tryTldWrapper env os b s)"
  unfolding tryTldWrapper_eq
  by (rule fold_report_unreported) (simp add: target_unreported_def)

lemma tick_unreported:
  "target_unreported t s \<Longrightarrow> target_unreported t (s\<lparr>nchecks := n\<rparr>)"
  by (simp add: target_unreported_def)

lemma add_target_unreported:
  "target_unreported t s \<Longrightarrow> target_unreported t (snd (add_target env os c tgts s))"
  by (simp add: add_target_def tryTldWrapper_unreported)

lemma sub_loop_unreported:
  "target_unreported t s \<Longrightarrow> target_unreported t (flow_state (sub_loop env os kw tld subs tgts s))"
proof (induction subs arbitrary: tgts s)
  case Nil
  then show ?case by simp
next
  case (Cons subtld rest)
  let ?s1 = "s\<lparr>nchecks := Suc (nchecks s)\<rparr>"
  have s1: "target_unreported t ?s1" using Cons.prems by (rule tick_unreported)
  obtain tgts' s2 where at: "add_target env os (kw @ ''.'' @ subtld @ ''.'' @ tld) tgts ?s1 = (tgts', s2)"
    by (cases "add_target env os (kw @ ''.'' @ subtld @ ''.'' @ tld) tgts ?s1")
  have s2: "target_unreported t s2"
    using add_target_unreported [OF s1, of env os "kw @ ''.'' @ subtld @ ''.'' @ tld" tgts] at by simp
  show ?case
    using s1 Cons.IH [OF s1] Cons.IH [OF s2] at by (simp add: Let_def)
qed

lemma tld_loop_unreported:
  "target_unreported t s \<Longrightarrow> target_unreported t (flow_state (tld_loop env os kw lines tgts s))"
proof (induction lines arbitrary: tgts s)
  case Nil
  then show ?case by simp
next
  case (Cons tld rest)
  let ?s1 = "s\<lparr>nchecks := Suc (nchecks s)\<rparr>"
  have s1: "target_unreported t ?s1" using Cons.prems by (rule tick_unreported)
  obtain tgts' s2 where at: "add_target env os (kw @ ''.'' @ tld) tgts ?s1 = (tgts', s2)"
    by (cases "add_target env os (kw @ ''.'' @ tld) tgts ?s1")
  have s2: "target_unreported t s2"
    using add_target_unreported [OF s1, of env os "kw @ ''.'' @ tld" tgts] at by simp
  have sub: "target_unreported t (flow_state (sub_loop env os kw tld (commontlds os) tgts' s2))"
    using s2 by (rule sub_loop_unreported)
  show ?case
  proof (cases "sub_loop env os kw tld (commontlds os) tgts' s2")
    case (Next tgts3 s3)
    then have "target_unreported t s3" using sub by simp
    then show ?thesis
      using Cons.prems s1 s2 Next at Cons.IH [of s] Cons.IH [of s2] Cons.IH [of s3]
      by (simp add: Let_def)
  next
    case (Returned s3)
    then have "target_unreported t s3" using sub by simp
    then show ?thesis
      using Cons.prems s1 s2 Returned at Cons.IH [of s] Cons.IH [of s2]
      by (simp add: Let_def)
  qed
qed

lemma leftover_unreported:
  "target_unreported t (flow_state f) \<Longrightarrow> target_unreported t (leftover env os f)"
  by (cases f) (simp_all add: leftover_def tryTldWrapper_unreported)

lemma start_unreported: "target_unreported t s \<Longrightarrow> target_unreported t (start env os s)"
  by (simp add: start_def leftover_unreported tld_loop_unreported split: option.split)

subsection \<open>A stop request seen by a loop\<close>

lemma sub_loop_stopped:
  "checkForStop env (nchecks s) \<Longrightarrow>
   sub_loop env os kw tld subs tgts s =
     (if subs = [] then Next tgts s else Returned (s\<lparr>nchecks := Suc (nchecks s)\<rparr>))"
  by (cases subs) (simp_all add: Let_def)


subsection \<open>Where the candidates of a batch come from\<close>

lemma all_considered_tick [simp]:
  "all_considered P tgts (s\<lparr>nchecks := n\<rparr>) = all_considered P tgts s"
  by (simp add: all_considered_def)

lemma all_considered_drop: "all_considered P tgts s \<Longrightarrow> all_considered P [] s"
  by (simp add: all_considered_def)

lemma tryTldWrapper_considered:
  "all_considered P tgts s \<Longrightarrow> all_considered P [] (tryTldWrapper env os tgts s)"
  by (simp add: all_considered_def)

lemma add_target_considered:
  assumes "all_considered P tgts s" and "P c"
    and "add_target env os c tgts s = (tgts', s')"
  shows "all_considered P tgts' s'"
proof (cases "int (length tgts) \<le> maxthreads os")
  case True
  then show ?thesis using assms by (auto simp: add_target_def all_considered_def)
next
  case False
  then show ?thesis using assms tryTldWrapper_considered [OF assms(1), of env os]
    by (auto simp: add_target_def)
qed

lemma sub_loop_considered:
  assumes "all_considered P tgts s"
    and "\<forall>sub \<in> set subs. \<not> (skipwildcards os \<and> checkDnsWildcard env (sub @ ''.'' @ tld))
           \<longrightarrow> P (kw @ ''.'' @ sub @ ''.'' @ tld)"
  shows "flow_all P (sub_loop env os kw tld subs tgts s)"
  using assms
proof (induction subs arbitrary: tgts s)
  case Nil
  then show ?case by simp
next
  case (Cons subtld rest)
  let ?s1 = "s\<lparr>nchecks := Suc (nchecks s)\<rparr>"
  have s1: "all_considered P tgts ?s1" using Cons.prems(1) by simp
  have rest: "\<forall>sub \<in> set rest. \<not> (skipwildcards os \<and> checkDnsWildcard env (sub @ ''.'' @ tld))
           \<longrightarrow> P (kw @ ''.'' @ sub @ ''.'' @ tld)"
    using Cons.prems(2) by simp
  show ?case
  proof (cases "checkForStop env (nchecks s)")
    case True
    then show ?thesis using all_considered_drop [OF s1] by (simp add: Let_def)
  next
    case nostop: False
    show ?thesis
    proof (cases "skipwildcards os \<and> checkDnsWildcard env (subtld @ ''.'' @ tld)")
      case True
      then show ?thesis using nostop Cons.IH [OF s1 rest] by (simp add: Let_def)
    next
      case False
      then have p: "P (kw @ ''.'' @ subtld @ ''.'' @ tld)" using Cons.prems(2) by simp
      obtain tgts' s2 where at: "add_target env os (kw @ ''.'' @ subtld @ ''.'' @ tld) tgts ?s1 = (tgts', s2)"
        by (cases "add_target env os (kw @ ''.'' @ subtld @ ''.'' @ tld) tgts ?s1")
      have "all_considered P tgts' s2" using s1 p at by (rule add_target_considered)
      then have "flow_all P (sub_loop env os kw tld rest tgts' s2)" using rest by (rule Cons.IH)
      then show ?thesis using nostop False at by (auto simp: Let_def)
    qed
  qed
qed

lemma tld_loop_considered:
  assumes "all_considered P tgts s"
    and "\<forall>tld \<in> set lines. \<not> skipped_line env os tld \<longrightarrow>
           P (kw @ ''.'' @ tld) \<and>
           (checkcommon os \<longrightarrow>
              (\<forall>sub \<in> set (commontlds os).
                  \<not> (skipwildcards os \<and> checkDnsWildcard env (sub @ ''.'' @ tld))
                  \<longrightarrow> P (kw @ ''.'' @ sub @ ''.'' @ tld)))"
  shows "flow_all P (tld_loop env os kw lines tgts s)"
  using assms
proof (induction lines arbitrary: tgts s)
  case Nil
  then show ?case by simp
next
  case (Cons tld rest)
  let ?s1 = "s\<lparr>nchecks := Suc (nchecks s)\<rparr>"
  have s1: "all_considered P tgts ?s1" using Cons.prems(1) by simp
  have rest: "\<forall>tld \<in> set rest. \<not> skipped_line env os tld \<longrightarrow>
           P (kw @ ''.'' @ tld) \<and>
           (checkcommon os \<longrightarrow>
              (\<forall>sub \<in> set (commontlds os).
                  \<not> (skipwildcards os \<and> checkDnsWildcard env (sub @ ''.'' @ tld))
                  \<longrightarrow> P (kw @ ''.'' @ sub @ ''.'' @ tld)))"
    using Cons.prems(2) by simp
  show ?case
  proof (cases "skipped_line env os tld")
    case True
    then have "tld_loop env os kw (tld # rest) tgts s = tld_loop env os kw rest tgts s"
      by (auto simp: skipped_line_def)
    then show ?thesis using Cons.IH [OF Cons.prems(1) rest] by simp
  next
    case False
    then have ns: "\<not> startswith tld ''#''" "\<not> (skipwildcards os \<and> checkDnsWildcard env tld)"
      by (auto simp: skipped_line_def)
    have p: "P (kw @ ''.'' @ tld)" using Cons.prems(2) False by simp
    have psub: "checkcommon os \<Longrightarrow> \<forall>sub \<in> set (commontlds os).
                  \<not> (skipwildcards os \<and> checkDnsWildcard env (sub @ ''.'' @ tld))
                  \<longrightarrow> P (kw @ ''.'' @ sub @ ''.'' @ tld)"
      using Cons.prems(2) False by simp
    show ?thesis
    proof (cases "checkForStop env (nchecks s)")
      case True
      then show ?thesis using ns all_considered_drop [OF s1] by (auto simp: Let_def)
    next
      case nostop: False
      obtain tgts' s2 where at: "add_target env os (kw @ ''.'' @ tld) tgts ?s1 = (tgts', s2)"
        by (cases "add_target env os (kw @ ''.'' @ tld) tgts ?s1")
      have s2: "all_considered P tgts' s2" using s1 p at by (rule add_target_considered)
      define f where "f = (if checkcommon os then sub_loop env os kw tld (commontlds os) tgts' s2
                            else Next tgts' s2)"
      have ff: "flow_all P f"
        using s2 psub sub_loop_considered [OF s2, of "commontlds os" os env tld kw]
        by (simp add: f_def)
      have step: "tld_loop env os kw (tld # rest) tgts s =
          (case f of Returned s3 \<Rightarrow> Returned s3
           | Next tgts3 s3 \<Rightarrow> tld_loop env os kw rest tgts3 s3)"
        using ns nostop at by (auto simp: Let_def f_def)
      show ?thesis
      proof (cases f)
        case (Next tgts3 s3)
        then have "all_considered P tgts3 s3" using ff by simp
        then have "flow_all P (tld_loop env os kw rest tgts3 s3)" using rest by (rule Cons.IH)
        then show ?thesis using step Next by simp
      next
        case (Returned s3)
        then show ?thesis using step ff by simp
      qed
    qed
  qed
qed

lemma leftover_considered:
  "flow_all P f \<Longrightarrow> list_all (list_all P) (spawned (leftover env os f))"
  by (cases f) (simp_all add: leftover_def all_considered_def)

subsection \<open>The order of the reports\<close>



lemma resolves_sched [simp]: "resolves (env\<lparr>sched := sc\<rparr>) = resolves env"
  by (simp add: resolves_def fun_eq_iff)


lemma sendEvent_plain:
  "\<not> activeonly os \<Longrightarrow> r \<noteq> baseDomain s \<Longrightarrow>
   sendEvent env os r s = s\<lparr>results := results s @ [r], notified := notified s @ [similar_domain r]\<rparr>"
  by (simp add: sendEvent_def notifyListeners_def Let_def)












subsection \<open>The batches of a run that is not stopped\<close>

lemma add_target_batches:
  "add_target env os c tgts s = (tgts', s') \<Longrightarrow>
   spawned s' @ batches (maxthreads os) tgts' later = spawned s @ batches (maxthreads os) tgts (c # later)"
  by (auto simp: add_target_def split: if_splits)

lemma sub_loop_batches:
  assumes "\<forall>n. \<not> checkForStop env n"
  shows "\<exists>tgts' s'. sub_loop env os kw tld subs tgts s = Next tgts' s' \<and>
           (\<forall>later. spawned s' @ batches (maxthreads os) tgts' later
                 = spawned s @ batches (maxthreads os) tgts (sub_candidates env os kw tld subs @ later))"
proof (induction subs arbitrary: tgts s)
  case Nil
  then show ?case by (simp add: sub_candidates_def)
next
  case (Cons subtld rest)
  let ?s1 = "s\<lparr>nchecks := Suc (nchecks s)\<rparr>"
  let ?c = "kw @ ''.'' @ subtld @ ''.'' @ tld"
  have nostop: "\<not> checkForStop env (nchecks s)" using assms by simp
  show ?case
  proof (cases "skipwildcards os \<and> checkDnsWildcard env (subtld @ ''.'' @ tld)")
    case True
    obtain tgts' s' where r: "sub_loop env os kw tld rest tgts ?s1 = Next tgts' s'"
      and b: "\<forall>later. spawned s' @ batches (maxthreads os) tgts' later
                 = spawned ?s1 @ batches (maxthreads os) tgts (sub_candidates env os kw tld rest @ later)"
      using Cons.IH [of tgts ?s1] by blast
    have "sub_loop env os kw tld (subtld # rest) tgts s = Next tgts' s'"
      using True nostop r by (auto simp: Let_def)
    moreover have "sub_candidates env os kw tld (subtld # rest) = sub_candidates env os kw tld rest"
      using True by (auto simp: sub_candidates_def)
    ultimately show ?thesis using b by simp
  next
    case False
    obtain tgts2 s2 where at: "add_target env os ?c tgts ?s1 = (tgts2, s2)"
      by (cases "add_target env os ?c tgts ?s1")
    obtain tgts' s' where r: "sub_loop env os kw tld rest tgts2 s2 = Next tgts' s'"
      and b: "\<forall>later. spawned s' @ batches (maxthreads os) tgts' later
                 = spawned s2 @ batches (maxthreads os) tgts2 (sub_candidates env os kw tld rest @ later)"
      using Cons.IH [of tgts2 s2] by blast
    have step: "sub_loop env os kw tld (subtld # rest) tgts s = Next tgts' s'"
      using False nostop r at by (auto simp: Let_def)
    have cs: "sub_candidates env os kw tld (subtld # rest) = ?c # sub_candidates env os kw tld rest"
      using False by (auto simp: sub_candidates_def)
    have "\<forall>later. spawned s' @ batches (maxthreads os) tgts' later
                 = spawned s @ batches (maxthreads os) tgts (sub_candidates env os kw tld (subtld # rest) @ later)"
    proof
      fix later
      have "spawned s' @ batches (maxthreads os) tgts' later
          = spawned s2 @ batches (maxthreads os) tgts2 (sub_candidates env os kw tld rest @ later)"
        using b by blast
      also have "\<dots> = spawned ?s1 @ batches (maxthreads os) tgts (?c # sub_candidates env os kw tld rest @ later)"
        using at by (rule add_target_batches)
      finally show "spawned s' @ batches (maxthreads os) tgts' later
                 = spawned s @ batches (maxthreads os) tgts (sub_candidates env os kw tld (subtld # rest) @ later)"
        by (simp add: cs)
    qed
    then show ?thesis using step by blast
  qed
qed

lemma tld_loop_batches:
  assumes "\<forall>n. \<not> checkForStop env n"
  shows "\<exists>tgts' s'. tld_loop env os kw lines tgts s = Next tgts' s' \<and>
           (\<forall>later. spawned s' @ batches (maxthreads os) tgts' later
                 = spawned s @ batches (maxthreads os) tgts (candidates env os kw lines @ later))"
proof (induction lines arbitrary: tgts s)
  case Nil
  then show ?case by (simp add: candidates_def)
next
  case (Cons tld rest)
  let ?s1 = "s\<lparr>nchecks := Suc (nchecks s)\<rparr>"
  let ?c = "kw @ ''.'' @ tld"
  have nostop: "\<not> checkForStop env (nchecks s)" using assms by simp
  have cands: "candidates env os kw (tld # rest) = line_candidates env os kw tld @ candidates env os kw rest"
    by (simp add: candidates_def)
  show ?case
  proof (cases "skipped_line env os tld")
    case True
    then have "tld_loop env os kw (tld # rest) tgts s = tld_loop env os kw rest tgts s"
      by (auto simp: skipped_line_def)
    moreover have "line_candidates env os kw tld = []" using True by (simp add: line_candidates_def)
    ultimately show ?thesis using Cons.IH [of tgts s] by (simp add: cands)
  next
    case False
    then have ns: "\<not> startswith tld ''#''" "\<not> (skipwildcards os \<and> checkDnsWildcard env tld)"
      by (auto simp: skipped_line_def)
    obtain tgts2 s2 where at: "add_target env os ?c tgts ?s1 = (tgts2, s2)"
      by (cases "add_target env os ?c tgts ?s1")
    define subcs where "subcs = (if checkcommon os then sub_candidates env os kw tld (commontlds os) else [])"
    define f where "f = (if checkcommon os then sub_loop env os kw tld (commontlds os) tgts2 s2
                            else Next tgts2 s2)"
    have "\<exists>tgts3 s3. f = Next tgts3 s3 \<and>
           (\<forall>later. spawned s3 @ batches (maxthreads os) tgts3 later
                 = spawned s2 @ batches (maxthreads os) tgts2 (subcs @ later))"
      using sub_loop_batches [OF assms, of os kw tld "commontlds os" tgts2 s2]
      by (simp add: f_def subcs_def)
    then obtain tgts3 s3 where f: "f = Next tgts3 s3"
      and b3: "\<forall>later. spawned s3 @ batches (maxthreads os) tgts3 later
                 = spawned s2 @ batches (maxthreads os) tgts2 (subcs @ later)"
      by blast
    obtain tgts' s' where r: "tld_loop env os kw rest tgts3 s3 = Next tgts' s'"
      and b: "\<forall>later. spawned s' @ batches (maxthreads os) tgts' later
                 = spawned s3 @ batches (maxthreads os) tgts3 (candidates env os kw rest @ later)"
      using Cons.IH [of tgts3 s3] by blast
    have step: "tld_loop env os kw (tld # rest) tgts s = Next tgts' s'"
      using ns nostop at f r by (auto simp: Let_def f_def)
    have lc: "line_candidates env os kw tld = ?c # subcs"
      using False by (simp add: line_candidates_def subcs_def)
    have "\<forall>later. spawned s' @ batches (maxthreads os) tgts' later
                 = spawned s @ batches (maxthreads os) tgts (candidates env os kw (tld # rest) @ later)"
    proof
      fix later
      have "spawned s' @ batches (maxthreads os) tgts' later
          = spawned s3 @ batches (maxthreads os) tgts3 (candidates env os kw rest @ later)"
        using b by blast
      also have "\<dots> = spawned s2 @ batches (maxthreads os) tgts2 (subcs @ candidates env os kw rest @ later)"
        using b3 by blast
      also have "\<dots> = spawned ?s1 @ batches (maxthreads os) tgts (?c # subcs @ candidates env os kw rest @ later)"
        using at by (rule add_target_batches)
      finally show "spawned s' @ batches (maxthreads os) tgts' later
                 = spawned s @ batches (maxthreads os) tgts (candidates env os kw (tld # rest) @ later)"
        by (simp add: cands lc)
    qed
    then show ?thesis using step by blast
  qed
qed

lemma leftover_batches:
  "spawned (leftover env os (Next tgts s)) = spawned s @ batches (maxthreads os) tgts []"
  by (simp add: leftover_def)

lemma batches_single:
  "int (length tgts) + int (length cs) \<le> n + 1 \<Longrightarrow>
   batches n tgts cs = (if tgts @ cs = [] then [] else [tgts @ cs])"
  by (induction cs arbitrary: tgts) auto

lemma start_batches:
  assumes "\<forall>n. \<not> checkForStop env n" and "fetchUrl env (tldlist os) = Some content"
  shows "spawned (start env os s) =
           spawned s @ batches (maxthreads os) []
             (candidates env os (domainKeyword env (baseDomain s)) (splitlines env (lower env content)))"
proof -
  obtain tgts' s' where r: "tld_loop env os (domainKeyword env (baseDomain s))
        (splitlines env (lower env content)) [] s = Next tgts' s'"
    and b: "\<forall>later. spawned s' @ batches (maxthreads os) tgts' later
                 = spawned s @ batches (maxthreads os) []
                     (candidates env os (domainKeyword env (baseDomain s))
                        (splitlines env (lower env content)) @ later)"
    using tld_loop_batches [OF assms(1), of os "domainKeyword env (baseDomain s)"
        "splitlines env (lower env content)" "[]" s] by blast
  have 1: "spawned (start env os s) = spawned s' @ batches (maxthreads os) tgts' []"
    using assms(2) r by (simp add: start_def leftover_batches)
  have 2: "spawned s' @ batches (maxthreads os) tgts' []
      = spawned s @ batches (maxthreads os) []
                     (candidates env os (domainKeyword env (baseDomain s))
                        (splitlines env (lower env content)) @ [])"
    using b by blast
  show ?thesis unfolding 1 2 by simp
qed

lemma line_candidates_mem:
  assumes "tld \<in> set lines" and "\<not> skipped_line env os tld"
  shows "kw @ ''.'' @ tld \<in> set (candidates env os kw lines)"
    and "checkcommon os \<Longrightarrow> subtld \<in> set (commontlds os) \<Longrightarrow>
         \<not> (skipwildcards os \<and> checkDnsWildcard env (subtld @ ''.'' @ tld)) \<Longrightarrow>
         kw @ ''.'' @ subtld @ ''.'' @ tld \<in> set (candidates env os kw lines)"
proof -
  have a: "kw @ ''.'' @ tld \<in> set (line_candidates env os kw tld)"
    using assms(2) by (simp add: line_candidates_def)
  show "kw @ ''.'' @ tld \<in> set (candidates env os kw lines)"
    unfolding candidates_def using assms(1) a by auto
  assume "checkcommon os" "subtld \<in> set (commontlds os)"
    "\<not> (skipwildcards os \<and> checkDnsWildcard env (subtld @ ''.'' @ tld))"
  then have "kw @ ''.'' @ subtld @ ''.'' @ tld \<in> set (line_candidates env os kw tld)"
    using assms(2) by (auto simp: line_candidates_def sub_candidates_def)
  then show "kw @ ''.'' @ subtld @ ''.'' @ tld \<in> set (candidates env os kw lines)"
    unfolding candidates_def using assms(1) by auto
qed

lemma start_one_batch:
  assumes "\<forall>n. \<not> checkForStop env n" and "fetchUrl env (tldlist os) = Some content"
    and "int (length (candidates env os (domainKeyword env target) (splitlines env (lower env content))))
           \<le> maxthreads os + 1"
  shows "set (concat (spawned (start env os (setup_plugin target))))
           = set (candidates env os (domainKeyword env target) (splitlines env (lower env content)))"
proof -
  have "spawned (start env os (setup_plugin target)) =
          batches (maxthreads os) []
            (candidates env os (domainKeyword env target) (splitlines env (lower env content)))"
    using start_batches [OF assms(1,2), of "setup_plugin target"] by (simp add: setup_plugin_def)
  also have "\<dots> = (if candidates env os (domainKeyword env target) (splitlines env (lower env content)) = []
                     then [] else [candidates env os (domainKeyword env target) (splitlines env (lower env content))])"
    using batches_single [of "[]" "candidates env os (domainKeyword env target) (splitlines env (lower env content))"
             "maxthreads os"] assms(3) by simp
  finally show ?thesis by simp
qed

lemma spawned_upper:
  assumes content: "fetchUrl env (tldlist os) = Some content"
  shows "\<forall>batch \<in> set (spawned (start env os (setup_plugin target))). \<forall>c \<in> set batch.
         \<exists>tld \<in> set (splitlines env (lower env content)).
            \<not> startswith tld ''#'' \<and> \<not> (skipwildcards os \<and> checkDnsWildcard env tld) \<and>
            (c = domainKeyword env target @ ''.'' @ tld \<or>
             (checkcommon os \<and>
              (\<exists>subtld \<in> set (commontlds os).
                  \<not> (skipwildcards os \<and> checkDnsWildcard env (subtld @ ''.'' @ tld)) \<and>
                  c = domainKeyword env target @ ''.'' @ subtld @ ''.'' @ tld)))"
proof -
  define kw where "kw = domainKeyword env target"
  define lines where "lines = splitlines env (lower env content)"
  define P where "P = (\<lambda>c. \<exists>tld \<in> set lines.
            \<not> startswith tld ''#'' \<and> \<not> (skipwildcards os \<and> checkDnsWildcard env tld) \<and>
            (c = kw @ ''.'' @ tld \<or>
             (checkcommon os \<and>
              (\<exists>subtld \<in> set (commontlds os).
                  \<not> (skipwildcards os \<and> checkDnsWildcard env (subtld @ ''.'' @ tld)) \<and>
                  c = kw @ ''.'' @ subtld @ ''.'' @ tld))))"
  have init: "all_considered P [] (setup_plugin target)"
    by (simp add: all_considered_def setup_plugin_def)
  have gen: "\<forall>tld \<in> set lines. \<not> skipped_line env os tld \<longrightarrow>
           P (kw @ ''.'' @ tld) \<and>
           (checkcommon os \<longrightarrow>
              (\<forall>sub \<in> set (commontlds os).
                  \<not> (skipwildcards os \<and> checkDnsWildcard env (sub @ ''.'' @ tld))
                  \<longrightarrow> P (kw @ ''.'' @ sub @ ''.'' @ tld)))"
    unfolding P_def skipped_line_def by blast
  have "flow_all P (tld_loop env os kw lines [] (setup_plugin target))"
    using init gen by (rule tld_loop_considered)
  then have "list_all (list_all P) (spawned (leftover env os (tld_loop env os kw lines [] (setup_plugin target))))"
    by (rule leftover_considered)
  moreover have "start env os (setup_plugin target)
      = leftover env os (tld_loop env os kw lines [] (setup_plugin target))"
    using content by (simp add: start_def kw_def lines_def setup_plugin_def)
  ultimately have "list_all (list_all P) (spawned (start env os (setup_plugin target)))"
    by simp
  then show ?thesis
    unfolding list_all_iff P_def kw_def lines_def by blast
qed

subsection \<open>A stop request in the middle of the list\<close>





subsection \<open>Schedulers with the same completion order, and the events of a batch\<close>

lemma sendEvent_sched [simp]: "sendEvent (env\<lparr>sched := sc\<rparr>) = sendEvent env"
  by (simp add: fun_eq_iff sendEvent_def Let_def)

lemma report_sched [simp]: "report (env\<lparr>sched := sc\<rparr>) = report env"
  by (simp add: fun_eq_iff report_def)






lemma fold_report_sent:
  "\<exists>sent. notified (fold (report env os) ks s) = notified s @ map similar_domain sent \<and>
          set sent \<subseteq> {k \<in> set ks. map_of (tldResults s) k = Some True \<and> k \<noteq> baseDomain s} \<and>
          (distinct ks \<longrightarrow> distinct sent)"
proof (induction ks arbitrary: s)
  case Nil
  show ?case by simp
next
  case (Cons k ks)
  let ?s1 = "report env os k s"
  obtain sent where n: "notified (fold (report env os) ks ?s1) = notified ?s1 @ map similar_domain sent"
    and sub: "set sent \<subseteq> {k \<in> set ks. map_of (tldResults ?s1) k = Some True \<and> k \<noteq> baseDomain ?s1}"
    and d: "distinct ks \<longrightarrow> distinct sent"
    using Cons.IH [of ?s1] by blast
  have sub': "set sent \<subseteq> {k \<in> set ks. map_of (tldResults s) k = Some True \<and> k \<noteq> baseDomain s}"
    using sub by simp
  show ?case
  proof (cases "notified ?s1 = notified s")
    case True
    have "notified (fold (report env os) (k # ks) s) = notified s @ map similar_domain sent"
      using n True by simp
    then show ?thesis using sub' d by (intro exI [of _ sent]) auto
  next
    case False
    then have r: "map_of (tldResults s) k = Some True" "k \<noteq> baseDomain s"
      and e: "notified ?s1 = notified s @ [similar_domain k]"
      using sendEvent_notified_cases [of env os k s] by (auto simp: report_def split: if_splits)
    have "notified (fold (report env os) (k # ks) s) = notified s @ map similar_domain (k # sent)"
      using n e by simp
    moreover have "set (k # sent) \<subseteq> {k' \<in> set (k # ks). map_of (tldResults s) k' = Some True \<and> k' \<noteq> baseDomain s}"
      using sub' r by auto
    moreover have "distinct (k # ks) \<longrightarrow> distinct (k # sent)"
      using d sub' by auto
    ultimately show ?thesis by blast
  qed
qed

lemma tryTldWrapper_sent:
  "\<exists>sent. notified (tryTldWrapper env os b s) = notified s @ map similar_domain sent \<and>
          distinct sent \<and>
          set sent \<subseteq> set [k \<leftarrow> map fst (outcomes env b). resolves env k \<and> k \<noteq> baseDomain s]"
proof -
  let ?s0 = "s\<lparr>spawned := spawned s @ [b], tldResults := outcomes env b\<rparr>"
  obtain sent where n: "notified (fold (report env os) (map fst (outcomes env b)) ?s0)
        = notified ?s0 @ map similar_domain sent"
    and sub: "set sent \<subseteq> {k \<in> set (map fst (outcomes env b)).
                 map_of (tldResults ?s0) k = Some True \<and> k \<noteq> baseDomain ?s0}"
    and d: "distinct (map fst (outcomes env b)) \<longrightarrow> distinct sent"
    using fold_report_sent [of env os "map fst (outcomes env b)" ?s0] by blast
  have "notified (tryTldWrapper env os b s) = notified s @ map similar_domain sent"
    using n by (simp add: tryTldWrapper_eq)
  moreover have "distinct sent" using d distinct_outcomes by blast
  moreover have "set sent \<subseteq> set [k \<leftarrow> map fst (outcomes env b). resolves env k \<and> k \<noteq> baseDomain s]"
    using sub keys_outcomes [of env b] by (auto simp: map_of_outcomes)
  ultimately show ?thesis by blast
qed


section \<open>The claims\<close>

subsection \<open>Per-candidate resolution\<close>

text \<open>
  C7. \<open>tryTld\<close> always ends normally: whatever \<open>gethostbyname_ex\<close> raises is
  caught. It stores \<open>True\<close> for its candidate when the lookup returned a host
  entry and \<open>False\<close> when it raised, and leaves the entry of every other
  candidate as it was. So, whatever the scheduler does, after the worker
  threads of a batch every candidate of the batch has the outcome of its own
  lookup.
\<close>

theorem tryTld_contains_errors:
  "(\<exists>s'. tryTld env target s = Inr s' \<and>
         (\<forall>h. gethostbyname_ex env target = Inr h \<longrightarrow> map_of (tldResults s') target = Some True) \<and>
         (\<forall>e. gethostbyname_ex env target = Inl e \<longrightarrow> map_of (tldResults s') target = Some False) \<and>
         (\<forall>other. other \<noteq> target \<longrightarrow> map_of (tldResults s') other = map_of (tldResults s) other)) \<and>
   (\<forall>c \<in> set batch.
       map_of (tldResults (run_threads env batch s)) c
         = Some (case gethostbyname_ex env c of Inr h \<Rightarrow> True | Inl e \<Rightarrow> False))"
proof (intro conjI ballI)
  show "\<exists>s'. tryTld env target s = Inr s' \<and>
         (\<forall>h. gethostbyname_ex env target = Inr h \<longrightarrow> map_of (tldResults s') target = Some True) \<and>
         (\<forall>e. gethostbyname_ex env target = Inl e \<longrightarrow> map_of (tldResults s') target = Some False) \<and>
         (\<forall>other. other \<noteq> target \<longrightarrow> map_of (tldResults s') other = map_of (tldResults s) other)"
    unfolding tryTld_Inr by (auto simp: AList.update_conv' resolves_def split: sum.split)
next
  fix c assume "c \<in> set batch"
  then show "map_of (tldResults (run_threads env batch s)) c
         = Some (case gethostbyname_ex env c of Inr h \<Rightarrow> True | Inl e \<Rightarrow> False)"
    by (simp add: run_threads_eq map_of_fold_update set_completion resolves_def)
qed

theorem tryTld_contains_errors_witness:
  "map_of (tldResults (run_threads demo_env [''acme.com'', ''acme.org'', ''acme.xyz'']
                         (setup_plugin ''acme.com''))) ''acme.org'' = Some False \<and>
   map_of (tldResults (run_threads demo_env [''acme.com'', ''acme.org'', ''acme.xyz'']
                         (setup_plugin ''acme.com''))) ''acme.xyz'' = Some True"
  using tryTld_contains_errors [of demo_env "''acme.org''" "setup_plugin ''acme.com''"
          "[''acme.com'', ''acme.org'', ''acme.xyz'']"]
  by (simp add: demo_env_def)

text \<open>
  C10. After \<open>tryTldWrapper\<close> the dictionary has one entry for each distinct
  candidate of the batch, with the outcome of that candidate's lookup. The
  call appends each string to \<open>results\<close> at most once and sends at most one
  event for it, and only for a string it has appended, also when the batch
  holds the string several times.
\<close>

theorem tryTldWrapper_one_outcome_per_candidate:
  "distinct (map fst (tldResults (tryTldWrapper env os batch s))) \<and>
   set (map fst (tldResults (tryTldWrapper env os batch s))) = set batch \<and>
   (\<forall>c \<in> set batch. map_of (tldResults (tryTldWrapper env os batch s)) c = Some (resolves env c)) \<and>
   (\<exists>new sent.
       results (tryTldWrapper env os batch s) = results s @ new \<and>
       notified (tryTldWrapper env os batch s) = notified s @ map similar_domain sent \<and>
       distinct new \<and> distinct sent \<and> set sent \<subseteq> set new \<and> set new \<subseteq> set batch)"
proof (intro conjI ballI)
  define new where "new = [k \<leftarrow> map fst (outcomes env batch). resolves env k \<and> k \<noteq> baseDomain s]"
  obtain sent where n: "notified (tryTldWrapper env os batch s) = notified s @ map similar_domain sent"
    and d: "distinct sent" and sub: "set sent \<subseteq> set new"
    using tryTldWrapper_sent [of env os batch s] unfolding new_def by blast
  have r: "results (tryTldWrapper env os batch s) = results s @ new"
    unfolding new_def by (rule tryTldWrapper_results)
  have dn: "distinct new"
    unfolding new_def by (rule distinct_filter) (rule distinct_outcomes)
  have sn: "set new \<subseteq> set batch"
    unfolding new_def using keys_outcomes [of env batch] by auto
  show "\<exists>new sent.
       results (tryTldWrapper env os batch s) = results s @ new \<and>
       notified (tryTldWrapper env os batch s) = notified s @ map similar_domain sent \<and>
       distinct new \<and> distinct sent \<and> set sent \<subseteq> set new \<and> set new \<subseteq> set batch"
    using r n dn d sub sn by blast
qed (simp_all add: tryTldWrapper_tldResults distinct_outcomes keys_outcomes map_of_outcomes del: set_map)

theorem tryTldWrapper_one_outcome_per_candidate_witness:
  "tldResults (tryTldWrapper demo_env demo_opts [''acme.xyz'', ''acme.org'', ''acme.xyz''] (setup_plugin ''acme.com''))
     = [(''acme.xyz'', True), (''acme.org'', False)] \<and>
   results (tryTldWrapper demo_env demo_opts [''acme.xyz'', ''acme.org'', ''acme.xyz''] (setup_plugin ''acme.com''))
     = [''acme.xyz''] \<and>
   notified (tryTldWrapper demo_env demo_opts [''acme.xyz'', ''acme.org'', ''acme.xyz''] (setup_plugin ''acme.com''))
     = [similar_domain ''acme.xyz'']"
proof -
  have e: "tldResults (tryTldWrapper demo_env demo_opts [''acme.xyz'', ''acme.org'', ''acme.xyz''] (setup_plugin ''acme.com''))
     = [(''acme.xyz'', True), (''acme.org'', False)]"
    by code_simp
  have r: "results (tryTldWrapper demo_env demo_opts [''acme.xyz'', ''acme.org'', ''acme.xyz''] (setup_plugin ''acme.com''))
     = [''acme.xyz'']"
    by code_simp
  have n: "notified (tryTldWrapper demo_env demo_opts [''acme.xyz'', ''acme.org'', ''acme.xyz''] (setup_plugin ''acme.com''))
     = [similar_domain ''acme.xyz'']"
    by code_simp
  show ?thesis
    using tryTldWrapper_one_outcome_per_candidate [of demo_env demo_opts
        "[''acme.xyz'', ''acme.org'', ''acme.xyz'']" "setup_plugin ''acme.com''"] e r n
    by simp
qed

subsection \<open>Reporting a candidate\<close>

text \<open>
  C4, as the code has it. With \<open>activeonly\<close>, \<open>sendEvent\<close> notifies the
  listeners of a candidate exactly when the candidate is not the target
  domain, the scan has not been stopped and the content that \<open>fetchUrl\<close>
  returns for \<open>http://\<close> followed by the candidate is not \<open>None\<close>. The
  test is against \<open>None\<close> only: an empty body is content.
\<close>

theorem sendEvent_notifies_iff:
  "activeonly os \<Longrightarrow>
   notified (sendEvent env os result s) =
     (if result \<noteq> baseDomain s \<and> \<not> checkForStop env (nchecks s)
         \<and> fetchUrl env (''http://'' @ result) \<noteq> None
      then notified s @ [similar_domain result] else notified s)"
  by (auto simp: sendEvent_def notifyListeners_def Let_def split: option.split)

theorem sendEvent_notifies_iff_witness:
  "activeonly demo_opts \<and>
   notified (sendEvent demo_env demo_opts ''acme.xyz'' (setup_plugin ''acme.com''))
     = [similar_domain ''acme.xyz''] \<and>
   notified (sendEvent demo_env demo_opts ''acme.com'' (setup_plugin ''acme.org'')) = []"
proof -
  have a: "activeonly demo_opts" by (simp add: demo_opts_def default_opts_def)
  show ?thesis
    using a sendEvent_notifies_iff [OF a, of demo_env "''acme.xyz''" "setup_plugin ''acme.com''"]
      sendEvent_notifies_iff [OF a, of demo_env "''acme.com''" "setup_plugin ''acme.org''"]
    by (simp add: demo_env_def setup_plugin_def)
qed

text \<open>
  C4 as stated fails: the page of \<open>acme.net\<close> is fetched with an empty body
  and the event is sent all the same.
\<close>

theorem sendEvent_accepts_empty_body:
  "activeonly demo_opts \<and> fetchUrl demo_env (''http://'' @ ''acme.net'') = Some [] \<and>
   notified (sendEvent demo_env demo_opts ''acme.net'' (setup_plugin ''acme.com''))
     = [similar_domain ''acme.net'']"
  by code_simp

text \<open>
  C5, as the code has it. \<open>sendEvent\<close> appends every candidate other than the
  target domain to \<open>results\<close>, before it looks at \<open>activeonly\<close> and before
  any page is fetched: the content check decides on the event only.
\<close>

theorem sendEvent_records_result:
  "results (sendEvent env os result s) =
     (if result = baseDomain s then results s else results s @ [result])"
  by (rule sendEvent_results)

text \<open>
  C5 as stated fails: with \<open>activeonly\<close>, a candidate whose page cannot be
  fetched is in \<open>results\<close> although no event is sent for it.
\<close>

theorem sendEvent_records_without_content:
  "activeonly demo_opts \<and> fetchUrl demo_env (''http://'' @ ''acme.com'') = None \<and>
   results (sendEvent demo_env demo_opts ''acme.com'' (setup_plugin ''acme.org'')) = [''acme.com''] \<and>
   notified (sendEvent demo_env demo_opts ''acme.com'' (setup_plugin ''acme.org'')) = []"
  by code_simp

text \<open>
  C6. \<open>sendEvent\<close> called with the target domain changes nothing: the
  candidate is neither appended to \<open>results\<close> nor sent as an event. Hence,
  after a whole run from a fresh plug-in, the target domain is not in
  \<open>results\<close> and no event carries it.
\<close>

theorem target_never_a_result:
  "sendEvent env os (baseDomain s) s = s \<and>
   target \<notin> set (results (start env os (setup_plugin target))) \<and>
   target \<notin> set (map data (notified (start env os (setup_plugin target))))"
proof
  show "sendEvent env os (baseDomain s) s = s" by (simp add: sendEvent_def)
  have "target_unreported target (setup_plugin target)"
    by (simp add: target_unreported_def setup_plugin_def)
  then have "target_unreported target (start env os (setup_plugin target))"
    by (rule start_unreported)
  then show "target \<notin> set (results (start env os (setup_plugin target))) \<and>
   target \<notin> set (map data (notified (start env os (setup_plugin target))))"
    by (simp add: target_unreported_def)
qed

subsection \<open>Stopping the scan\<close>




subsection \<open>Building the candidates\<close>

text \<open>
  C1, as the code has it. With \<open>skipwildcards\<close>, a line of the list that is a
  wildcard zone is passed over as a whole: the loop goes on with the next line
  and builds neither \<open>keyword.tld\<close> nor any \<open>keyword.subtld.tld\<close> for it.
  So every candidate of every batch of a run comes from a line that is
  neither a comment nor a skipped wildcard zone: it is \<open>keyword.tld\<close>, or,
  with \<open>checkcommon\<close>, \<open>keyword.subtld.tld\<close> for a common sub-domain whose
  zone \<open>subtld.tld\<close> is not a skipped wildcard zone. In a run that is not
  stopped, the batches are exactly what the appending places make of the
  sequence \<open>candidates\<close>; when that sequence is not longer than
  \<open>maxthreads + 1\<close>, each of its candidates is in a batch: \<open>keyword.tld\<close>
  for every line that is not skipped and, with \<open>checkcommon\<close>,
  \<open>keyword.subtld.tld\<close> for every common sub-domain whose zone is not a
  skipped wildcard zone.
\<close>

theorem wildcard_tld_skipped_with_subtlds:
  "(\<not> startswith tld ''#'' \<and> skipwildcards os \<and> checkDnsWildcard env tld \<longrightarrow>
      tld_loop env os keyword (tld # rest) targetList s = tld_loop env os keyword rest targetList s) \<and>
   (fetchUrl env (tldlist os) = Some content \<longrightarrow>
      (\<forall>batch \<in> set (spawned (start env os (setup_plugin target))). \<forall>c \<in> set batch.
         \<exists>tld \<in> set (splitlines env (lower env content)).
            \<not> startswith tld ''#'' \<and> \<not> (skipwildcards os \<and> checkDnsWildcard env tld) \<and>
            (c = domainKeyword env target @ ''.'' @ tld \<or>
             (checkcommon os \<and>
              (\<exists>subtld \<in> set (commontlds os).
                  \<not> (skipwildcards os \<and> checkDnsWildcard env (subtld @ ''.'' @ tld)) \<and>
                  c = domainKeyword env target @ ''.'' @ subtld @ ''.'' @ tld))))) \<and>
   (fetchUrl env (tldlist os) = Some content \<and> (\<forall>n. \<not> checkForStop env n) \<longrightarrow>
      spawned (start env os (setup_plugin target)) =
        batches (maxthreads os) []
          (candidates env os (domainKeyword env target) (splitlines env (lower env content)))) \<and>
   (fetchUrl env (tldlist os) = Some content \<and> (\<forall>n. \<not> checkForStop env n) \<and>
    int (length (candidates env os (domainKeyword env target) (splitlines env (lower env content))))
      \<le> maxthreads os + 1 \<longrightarrow>
      (\<forall>tld \<in> set (splitlines env (lower env content)).
          \<not> startswith tld ''#'' \<and> \<not> (skipwildcards os \<and> checkDnsWildcard env tld) \<longrightarrow>
          domainKeyword env target @ ''.'' @ tld
            \<in> set (concat (spawned (start env os (setup_plugin target)))) \<and>
          (checkcommon os \<longrightarrow>
             (\<forall>subtld \<in> set (commontlds os).
                 \<not> (skipwildcards os \<and> checkDnsWildcard env (subtld @ ''.'' @ tld)) \<longrightarrow>
                 domainKeyword env target @ ''.'' @ subtld @ ''.'' @ tld
                   \<in> set (concat (spawned (start env os (setup_plugin target))))))))"
proof (intro conjI impI)
  assume "\<not> startswith tld ''#'' \<and> skipwildcards os \<and> checkDnsWildcard env tld"
  then show "tld_loop env os keyword (tld # rest) targetList s = tld_loop env os keyword rest targetList s"
    by simp
next
  assume "fetchUrl env (tldlist os) = Some content"
  then show "\<forall>batch \<in> set (spawned (start env os (setup_plugin target))). \<forall>c \<in> set batch.
         \<exists>tld \<in> set (splitlines env (lower env content)).
            \<not> startswith tld ''#'' \<and> \<not> (skipwildcards os \<and> checkDnsWildcard env tld) \<and>
            (c = domainKeyword env target @ ''.'' @ tld \<or>
             (checkcommon os \<and>
              (\<exists>subtld \<in> set (commontlds os).
                  \<not> (skipwildcards os \<and> checkDnsWildcard env (subtld @ ''.'' @ tld)) \<and>
                  c = domainKeyword env target @ ''.'' @ subtld @ ''.'' @ tld)))"
    by (rule spawned_upper)
next
  assume "fetchUrl env (tldlist os) = Some content \<and> (\<forall>n. \<not> checkForStop env n)"
  then show "spawned (start env os (setup_plugin target)) =
        batches (maxthreads os) []
          (candidates env os (domainKeyword env target) (splitlines env (lower env content)))"
    using start_batches [of env os content "setup_plugin target"] by (simp add: setup_plugin_def)
next
  assume a: "fetchUrl env (tldlist os) = Some content \<and> (\<forall>n. \<not> checkForStop env n) \<and>
    int (length (candidates env os (domainKeyword env target) (splitlines env (lower env content))))
      \<le> maxthreads os + 1"
  then have eq: "set (concat (spawned (start env os (setup_plugin target))))
           = set (candidates env os (domainKeyword env target) (splitlines env (lower env content)))"
    using start_one_batch [of env os content target] by blast
  show "\<forall>tld \<in> set (splitlines env (lower env content)).
          \<not> startswith tld ''#'' \<and> \<not> (skipwildcards os \<and> checkDnsWildcard env tld) \<longrightarrow>
          domainKeyword env target @ ''.'' @ tld
            \<in> set (concat (spawned (start env os (setup_plugin target)))) \<and>
          (checkcommon os \<longrightarrow>
             (\<forall>subtld \<in> set (commontlds os).
                 \<not> (skipwildcards os \<and> checkDnsWildcard env (subtld @ ''.'' @ tld)) \<longrightarrow>
                 domainKeyword env target @ ''.'' @ subtld @ ''.'' @ tld
                   \<in> set (concat (spawned (start env os (setup_plugin target))))))"
  proof (intro ballI impI conjI)
    fix tld
    assume t: "tld \<in> set (splitlines env (lower env content))"
      and n: "\<not> startswith tld ''#'' \<and> \<not> (skipwildcards os \<and> checkDnsWildcard env tld)"
    then have ns: "\<not> skipped_line env os tld" by (simp add: skipped_line_def)
    show "domainKeyword env target @ ''.'' @ tld
            \<in> set (concat (spawned (start env os (setup_plugin target))))"
      unfolding eq using t ns by (rule line_candidates_mem(1))
    fix subtld
    assume "checkcommon os" "subtld \<in> set (commontlds os)"
      "\<not> (skipwildcards os \<and> checkDnsWildcard env (subtld @ ''.'' @ tld))"
    then show "domainKeyword env target @ ''.'' @ subtld @ ''.'' @ tld
                   \<in> set (concat (spawned (start env os (setup_plugin target))))"
      unfolding eq using line_candidates_mem(2) [OF t ns] by blast
  qed
qed

theorem wildcard_tld_skipped_with_subtlds_witness:
  "tld_loop zone_env two_opts ''acme'' [''biz'', ''net''] [] (setup_plugin ''acme.com'')
     = tld_loop zone_env two_opts ''acme'' [''net''] [] (setup_plugin ''acme.com'') \<and>
   spawned (start zone_env two_opts (setup_plugin ''acme.com''))
     = [[''acme.com'', ''acme.org.com'', ''acme.co.com'', ''acme.xyz'', ''acme.org.xyz'',
         ''acme.net'', ''acme.org.net'', ''acme.co.net'']] \<and>
   ''acme.co.net'' \<in> set (concat (spawned (start zone_env two_opts (setup_plugin ''acme.com''))))"
proof -
  have a: "\<not> startswith ''biz'' ''#'' \<and> skipwildcards two_opts \<and> checkDnsWildcard zone_env ''biz''"
    by code_simp
  have b: "fetchUrl zone_env (tldlist two_opts)
      = Some (''# Version 1'' @ [CHR 0x0A] @ ''COM'' @ [CHR 0x0A] @ ''XYZ''
                                   @ [CHR 0x0A] @ ''BIZ'' @ [CHR 0x0A] @ ''NET'' @ [CHR 0x0A])"
    by code_simp
  have c: "\<forall>n. \<not> checkForStop zone_env n"
    by (simp add: zone_env_def demo_env_def)
  have d: "batches (maxthreads two_opts) []
          (candidates zone_env two_opts (domainKeyword zone_env ''acme.com'')
             (splitlines zone_env (lower zone_env
                (''# Version 1'' @ [CHR 0x0A] @ ''COM'' @ [CHR 0x0A] @ ''XYZ''
                                   @ [CHR 0x0A] @ ''BIZ'' @ [CHR 0x0A] @ ''NET'' @ [CHR 0x0A]))))
      = [[''acme.com'', ''acme.org.com'', ''acme.co.com'', ''acme.xyz'', ''acme.org.xyz'',
         ''acme.net'', ''acme.org.net'', ''acme.co.net'']]"
    by code_simp
  show ?thesis
    using wildcard_tld_skipped_with_subtlds [of "''biz''" two_opts zone_env "''acme''" "[''net'']" "[]"
        "setup_plugin ''acme.com''"
        "''# Version 1'' @ [CHR 0x0A] @ ''COM'' @ [CHR 0x0A] @ ''XYZ''
                                   @ [CHR 0x0A] @ ''BIZ'' @ [CHR 0x0A] @ ''NET'' @ [CHR 0x0A]"
        "''acme.com''"] a b c d
    by simp
qed

text \<open>
  C1 as stated fails: \<open>biz\<close> is a wildcard zone and \<open>org.biz\<close> is not, yet
  \<open>acme.org.biz\<close> is in no batch (the number of threads is the default, so
  nothing is lost at a flush).
\<close>

theorem wildcard_tld_subtlds_not_tried:
  "skipwildcards wide_opts \<and> checkcommon wide_opts \<and> commontlds wide_opts = [''org''] \<and>
   checkDnsWildcard demo_env ''biz'' \<and> \<not> checkDnsWildcard demo_env ''org.biz'' \<and>
   spawned (start demo_env wide_opts (setup_plugin ''acme.com''))
     = [[''acme.com'', ''acme.org.com'', ''acme.xyz'', ''acme.org.xyz'', ''acme.net'', ''acme.org.net'']]"
  by code_simp

subsection \<open>Filling and flushing the batch\<close>

text \<open>
  C2 fails on the code. With \<open>maxthreads = 1\<close> and no common sub-domains the
  lines \<open>com\<close> and \<open>xyz\<close> fill \<open>targetList\<close>; \<open>biz\<close> is a wildcard zone;
  at \<open>net\<close> the list is longer than \<open>maxthreads\<close>, so it is resolved and
  emptied, and the candidate \<open>acme.net\<close> that was about to be added is not
  kept: it is in no batch of the run.
\<close>

theorem flush_drops_candidate:
  "checkcommon flush_opts = False \<and> maxthreads flush_opts = 1 \<and>
   map_option (\<lambda>content. splitlines demo_env (lower demo_env content))
     (fetchUrl demo_env (tldlist flush_opts))
     = Some [''# version 1'', ''com'', ''xyz'', ''biz'', ''net''] \<and>
   \<not> skipped_line demo_env flush_opts ''net'' \<and>
   spawned (start demo_env flush_opts (setup_plugin ''acme.com'')) = [[''acme.com'', ''acme.xyz'']]"
  by code_simp

text \<open>
  C3 fails on the code. A candidate is appended while the length of
  \<open>targetList\<close> is at most \<open>maxthreads\<close>, so the list grows to
  \<open>maxthreads + 1\<close> before it is resolved: with \<open>maxthreads = 1\<close> the run
  starts a batch of two worker threads.
\<close>

theorem batch_exceeds_maxthreads:
  "maxthreads flush_opts = 1 \<and>
   map length (spawned (start demo_env flush_opts (setup_plugin ''acme.com''))) = [2]"
  by code_simp

subsection \<open>The order of the reports\<close>




end
